theory Spec2Isabelle
  imports Main
begin

section \<open>The periodic stats collector (package container, write_stats_collector)\<close>

text \<open>
  The collector is Go code: a struct with a manager, a logger, a collection interval, a
  stop channel and a retention cap; \<open>run\<close> prunes once, then waits in a
  \<open>select\<close> on the ticker channel and the stop channel; \<open>collectStats\<close> asks the
  registry for the running instances and fetches the stats of each one.

  Everything the code does beyond returning a value is written into a state: the external
  world (database, container runtime) that the calls read and change, the counter that
  gives each created context its identity, and the trace of the calls and log entries the
  code issues, in order.

  The manager and the logger of a collector are taken to be there (not nil). How long a
  call takes is not part of the model: a timeout is the duration handed to
  \<open>context.WithTimeout\<close>, and a fetch that runs into it is a fetch that returns an
  error.
\<close>

subsection \<open>Data\<close>

text \<open>A Go \<open>error\<close> value, with its message.\<close>

datatype error = Error string

text \<open>\<open>time.Duration\<close> counts nanoseconds; \<open>time.Second\<close> is \<open>10^9\<close> of them.\<close>

type_synonym Duration = int

definition Second :: Duration where
  "Second = 1000000000"

text \<open>
  A context is \<open>context.Background()\<close> or a child made by \<open>context.WithTimeout\<close>:
  the child has an identity of its own, its parent and its timeout. Cancelling a context
  cancels that context and the contexts derived from it, nothing else.
\<close>

datatype go_context = Background | TimeoutCtx nat go_context Duration

text \<open>
  The instance record is declared in package \<open>db\<close>; the collector reads its \<open>ID\<close> and
  its \<open>ContainerID\<close> only. The type of \<open>ID\<close> is a parameter.
\<close>

record 'id Instance =
  ID :: 'id
  ContainerID :: string

text \<open>Log entries (logrus): level, message, fields in the order the code gives them.\<close>

datatype log_level = DebugLevel | InfoLevel | ErrorLevel

datatype 'id field_value = FInt int | FStr string | FErr error | FId 'id

type_synonym Logger = nat

text \<open>What the collector does to the outside, in order.\<close>

datatype 'id event =
    EvPrune int
  | EvRegistryQuery
  | EvCtxCreate go_context
  | EvStatsFetch go_context 'id
  | EvCtxCancel go_context
  | EvCloseStopChan
  | EvLog Logger log_level string "(string \<times> 'id field_value) list"

record ('w, 'id) state =
  world :: 'w
  next_ctx :: nat
  trace :: "'id event list"

text \<open>
  The package \<open>db\<close> and the \<open>Manager\<close> interface are not part of the collector: their
  functions are parameters. Each reads and changes the world and returns its result;
  \<open>GetInstanceStats\<close> returns a payload of some type, or an error.
\<close>

record ('w, 'id) db =
  GetRunningInstances :: "'w \<Rightarrow> (error + 'id Instance list) \<times> 'w"
  PruneResourceUsage :: "int \<Rightarrow> 'w \<Rightarrow> error option \<times> 'w"

record ('w, 'id, 'st) Manager =
  GetInstanceStats :: "go_context \<Rightarrow> 'id \<Rightarrow> 'w \<Rightarrow> (error + 'st) \<times> 'w"

text \<open>A channel of the collector: nil, open, or closed.\<close>

datatype chan = NilChan | Open | Closed

datatype go_panic = CloseOfNilChannel | CloseOfClosedChannel | NonPositiveTickerInterval

record ('w, 'id, 'st) StatsCollector =
  manager :: "('w, 'id, 'st) Manager"
  logger :: Logger
  collectionRate :: Duration
  stopChan :: chan
  maxPerInstance :: int

subsection \<open>Primitives\<close>

definition emit :: "'id event \<Rightarrow> ('w, 'id) state \<Rightarrow> ('w, 'id) state" where
  "emit ev s = s\<lparr>trace := trace s @ [ev]\<rparr>"

text \<open>\<open>context.WithTimeout(parent, d)\<close>: a new context, and its cancel function.\<close>

definition WithTimeout :: "go_context \<Rightarrow> Duration \<Rightarrow> ('w, 'id) state \<Rightarrow> go_context \<times> ('w, 'id) state" where
  "WithTimeout parent d s =
     (let ctx = TimeoutCtx (next_ctx s) parent d
      in (ctx, emit (EvCtxCreate ctx) (s\<lparr>next_ctx := Suc (next_ctx s)\<rparr>)))"

definition cancel :: "go_context \<Rightarrow> ('w, 'id) state \<Rightarrow> ('w, 'id) state" where
  "cancel ctx s = emit (EvCtxCancel ctx) s"

definition log_entry :: "Logger \<Rightarrow> log_level \<Rightarrow> string \<Rightarrow> (string \<times> 'id field_value) list \<Rightarrow>
    ('w, 'id) state \<Rightarrow> ('w, 'id) state" where
  "log_entry l lvl msg fs s = emit (EvLog l lvl msg fs) s"

text \<open>\<open>close(ch)\<close> panics on a nil channel and on a closed one.\<close>

fun close_chan :: "chan \<Rightarrow> go_panic + chan" where
  "close_chan NilChan = Inl CloseOfNilChannel"
| "close_chan Open = Inr Closed"
| "close_chan Closed = Inl CloseOfClosedChannel"

subsection \<open>The collector\<close>

definition NewStatsCollector :: "('w, 'id, 'st) Manager \<Rightarrow> Logger \<Rightarrow> Duration \<Rightarrow> ('w, 'id, 'st) StatsCollector" where
  "NewStatsCollector m l rate =
     \<lparr>manager = m, logger = l, collectionRate = rate, stopChan = Open, maxPerInstance = 100\<rparr>"

definition Stop :: "('w, 'id, 'st) StatsCollector \<Rightarrow> go_panic + ('w, 'id, 'st) StatsCollector" where
  "Stop c = (case close_chan (stopChan c) of
               Inl p \<Rightarrow> Inl p
             | Inr ch \<Rightarrow> Inr (c\<lparr>stopChan := ch\<rparr>))"

definition cleanupOldStats :: "('w, 'id) db \<Rightarrow> ('w, 'id, 'st) StatsCollector \<Rightarrow> ('w, 'id) state \<Rightarrow>
    error option \<times> ('w, 'id) state" where
  "cleanupOldStats d c s =
     (case PruneResourceUsage d (maxPerInstance c) (world s) of
        (r, w') \<Rightarrow> (r, emit (EvPrune (maxPerInstance c)) (s\<lparr>world := w'\<rparr>)))"

text \<open>One pass of the body of the \<open>for ... range instances\<close> loop.\<close>

definition collect_instance :: "('w, 'id, 'st) StatsCollector \<Rightarrow> 'id Instance \<Rightarrow> ('w, 'id) state \<Rightarrow>
    ('w, 'id) state" where
  "collect_instance c inst s =
     (if ContainerID inst = [] then s
      else
        (case WithTimeout Background (5 * Second) s of
           (ctx, s1) \<Rightarrow>
             (case GetInstanceStats (manager c) ctx (ID inst) (world s1) of
                (r, w') \<Rightarrow>
                  let s2 = emit (EvStatsFetch ctx (ID inst)) (s1\<lparr>world := w'\<rparr>);
                      s3 = (case r of
                              Inl err \<Rightarrow>
                                log_entry (logger c) ErrorLevel ''Failed to collect stats for instance''
                                  [(''instance_id'', FId (ID inst)),
                                   (''container_id'', FStr (ContainerID inst)),
                                   (''error'', FErr err)] s2
                            | Inr _ \<Rightarrow> s2)
                  in cancel ctx s3)))"

fun collect_loop :: "('w, 'id, 'st) StatsCollector \<Rightarrow> 'id Instance list \<Rightarrow> ('w, 'id) state \<Rightarrow>
    ('w, 'id) state" where
  "collect_loop c [] s = s"
| "collect_loop c (inst # rest) s = collect_loop c rest (collect_instance c inst s)"

definition collectStats :: "('w, 'id) db \<Rightarrow> ('w, 'id, 'st) StatsCollector \<Rightarrow> ('w, 'id) state \<Rightarrow>
    error option \<times> ('w, 'id) state" where
  "collectStats d c s =
     (case GetRunningInstances d (world s) of
        (Inl err, w') \<Rightarrow> (Some err, emit EvRegistryQuery (s\<lparr>world := w'\<rparr>))
      | (Inr instances, w') \<Rightarrow>
          (None,
           collect_loop c instances
             (log_entry (logger c) DebugLevel ''Collecting stats for running instances''
                [(''count'', FInt (int (length instances)))]
                (emit EvRegistryQuery (s\<lparr>world := w'\<rparr>)))))"

subsection \<open>The loop of run\<close>

text \<open>
  The \<open>select\<close> of \<open>run\<close> has two cases: a receive from the ticker channel and a
  receive from the stop channel. A receive from the ticker channel can proceed when the
  channel holds a tick (it has room for one); a receive from the stop channel can proceed
  when the channel is closed. When both can proceed, the runtime picks one of them; when
  neither can, the goroutine stays blocked.
\<close>

datatype select_case = RecvTick | RecvStop

datatype run_status = Selecting | Returned | Panicked go_panic

record ('w, 'id, 'st) run_state =
  status :: run_status
  collector :: "('w, 'id, 'st) StatsCollector"
  tickerC :: bool
  st :: "('w, 'id) state"

definition select_stmt :: "('w, 'id) db \<Rightarrow> select_case \<Rightarrow> ('w, 'id, 'st) run_state \<Rightarrow> ('w, 'id, 'st) run_state" where
  "select_stmt d pick r =
     (let c = collector r;
          stop_ready = (stopChan c = Closed)
      in if tickerC r \<and> (\<not> stop_ready \<or> pick = RecvTick) then
           (case collectStats d c (st r) of
              (None, s1) \<Rightarrow> r\<lparr>tickerC := False, st := s1\<rparr>
            | (Some err, s1) \<Rightarrow>
                r\<lparr>tickerC := False,
                  st := log_entry (logger c) ErrorLevel ''Failed to collect stats''
                          [(''error'', FErr err)] s1\<rparr>)
         else if stop_ready then
           r\<lparr>status := Returned,
             st := log_entry (logger c) InfoLevel ''Stats collector stopped'' [] (st r)\<rparr>
         else r)"

text \<open>
  What happens around the goroutine of \<open>run\<close> while it is in its loop: the ticker
  delivers a tick (dropped when the channel still holds one), another goroutine calls
  \<open>Stop\<close>, or the goroutine is scheduled and evaluates its \<open>select\<close>, with the
  case the runtime picks should both be ready. A tick runs to its end before anything
  else is looked at.
\<close>

datatype occurrence = TimerFires | StopCalled | Scheduled select_case

definition occur :: "('w, 'id) db \<Rightarrow> occurrence \<Rightarrow> ('w, 'id, 'st) run_state \<Rightarrow> ('w, 'id, 'st) run_state" where
  "occur d oc r =
     (case oc of
        TimerFires \<Rightarrow> r\<lparr>tickerC := True\<rparr>
      | StopCalled \<Rightarrow>
          (case Stop (collector r) of
             Inl p \<Rightarrow> r\<lparr>status := Panicked p\<rparr>
           | Inr c' \<Rightarrow> r\<lparr>collector := c', st := emit EvCloseStopChan (st r)\<rparr>)
      | Scheduled pick \<Rightarrow> select_stmt d pick r)"

fun run_loop :: "('w, 'id) db \<Rightarrow> occurrence list \<Rightarrow> ('w, 'id, 'st) run_state \<Rightarrow> ('w, 'id, 'st) run_state" where
  "run_loop d [] r = r"
| "run_loop d (oc # ocs) r =
     (case status r of
        Selecting \<Rightarrow> run_loop d ocs (occur d oc r)
      | Returned \<Rightarrow> r
      | Panicked p \<Rightarrow> r)"

text \<open>
  \<open>run\<close>: \<open>time.NewTicker\<close> panics when the interval is not positive; otherwise the
  pruning runs, its failure is logged, and the loop starts with an empty ticker channel.
\<close>

definition run :: "('w, 'id) db \<Rightarrow> ('w, 'id, 'st) StatsCollector \<Rightarrow> occurrence list \<Rightarrow> ('w, 'id) state \<Rightarrow>
    ('w, 'id, 'st) run_state" where
  "run d c ocs s =
     (if collectionRate c \<le> 0 then
        \<lparr>status = Panicked NonPositiveTickerInterval, collector = c, tickerC = False, st = s\<rparr>
      else
        (case cleanupOldStats d c s of
           (None, s1) \<Rightarrow>
             run_loop d ocs \<lparr>status = Selecting, collector = c, tickerC = False, st = s1\<rparr>
         | (Some err, s1) \<Rightarrow>
             run_loop d ocs
               \<lparr>status = Selecting, collector = c, tickerC = False,
                st = log_entry (logger c) ErrorLevel ''Failed to clean up old stats''
                       [(''error'', FErr err)] s1\<rparr>))"

subsection \<open>Reading a trace\<close>

text \<open>The stats-fetch calls of a trace, in order, each with its context and instance.\<close>

fun fetch_of :: "'id event \<Rightarrow> (go_context \<times> 'id) list" where
  "fetch_of (EvStatsFetch ctx i) = [(ctx, i)]"
| "fetch_of _ = []"

definition stats_fetches :: "'id event list \<Rightarrow> (go_context \<times> 'id) list" where
  "stats_fetches tr = concat (map fetch_of tr)"

definition fetched_ids :: "'id event list \<Rightarrow> 'id list" where
  "fetched_ids tr = map snd (stats_fetches tr)"

text \<open>The caps passed to the pruning calls of a trace, in order.\<close>

fun prune_of :: "'id event \<Rightarrow> int list" where
  "prune_of (EvPrune n) = [n]"
| "prune_of _ = []"

definition prune_calls :: "'id event list \<Rightarrow> int list" where
  "prune_calls tr = concat (map prune_of tr)"

text \<open>The number of registry queries of a trace.\<close>

definition registry_queries :: "'id event list \<Rightarrow> nat" where
  "registry_queries tr = length (filter (\<lambda>ev. ev = EvRegistryQuery) tr)"

text \<open>The events a piece of code added: those of the later state beyond the earlier one's.\<close>

definition new_events :: "('w, 'id) state \<Rightarrow> ('w, 'id) state \<Rightarrow> 'id event list" where
  "new_events s s' = drop (length (trace s)) (trace s')"

text \<open>The events of a trace from the first close of the stop channel on.\<close>

fun from_stop :: "'id event list \<Rightarrow> 'id event list" where
  "from_stop [] = []"
| "from_stop (EvCloseStopChan # evs) = EvCloseStopChan # evs"
| "from_stop (ev # evs) = from_stop evs"

definition has_container :: "'id Instance \<Rightarrow> bool" where
  "has_container inst = (ContainerID inst \<noteq> [])"

text \<open>
  What one pass of the loop body adds to the trace, and what the whole loop adds: the
  events are read off \<open>collect_instance\<close> and \<open>collect_loop\<close>.
\<close>

definition pass_events :: "('w, 'id, 'st) StatsCollector \<Rightarrow> 'id Instance \<Rightarrow> ('w, 'id) state \<Rightarrow> 'id event list" where
  "pass_events c inst s =
     (if ContainerID inst = [] then []
      else let ctx = TimeoutCtx (next_ctx s) Background (5 * Second)
           in [EvCtxCreate ctx, EvStatsFetch ctx (ID inst)] @
              (case fst (GetInstanceStats (manager c) ctx (ID inst) (world s)) of
                 Inl err \<Rightarrow> [EvLog (logger c) ErrorLevel ''Failed to collect stats for instance''
                              [(''instance_id'', FId (ID inst)),
                               (''container_id'', FStr (ContainerID inst)),
                               (''error'', FErr err)]]
               | Inr _ \<Rightarrow> []) @
              [EvCtxCancel ctx])"

fun loop_events :: "('w, 'id, 'st) StatsCollector \<Rightarrow> 'id Instance list \<Rightarrow> ('w, 'id) state \<Rightarrow> 'id event list" where
  "loop_events c [] s = []"
| "loop_events c (inst # rest) s = pass_events c inst s @ loop_events c rest (collect_instance c inst s)"

subsection \<open>Contexts in a trace\<close>

text \<open>A context with the contexts it is derived from: cancelling any of them cancels it.\<close>

fun ctx_chain :: "go_context \<Rightarrow> go_context list" where
  "ctx_chain Background = [Background]"
| "ctx_chain (TimeoutCtx k p d) = TimeoutCtx k p d # ctx_chain p"

text \<open>
  No stats fetch of the trace runs on a cancelled context: when the fetch is issued, neither
  its context nor a context that one is derived from is among those cancelled so far.
\<close>

fun fetches_unaffected :: "go_context list \<Rightarrow> 'id event list \<Rightarrow> bool" where
  "fetches_unaffected cancelled [] = True"
| "fetches_unaffected cancelled (EvCtxCancel y # evs) = fetches_unaffected (y # cancelled) evs"
| "fetches_unaffected cancelled (EvStatsFetch x i # evs) =
     (set (ctx_chain x) \<inter> set cancelled = {} \<and> fetches_unaffected cancelled evs)"
| "fetches_unaffected cancelled (ev # evs) = fetches_unaffected cancelled evs"

text \<open>A context made before the counter reached \<open>n\<close>.\<close>

fun older :: "nat \<Rightarrow> go_context \<Rightarrow> bool" where
  "older n Background = False"
| "older n (TimeoutCtx k p d) = (k < n)"

fun create_of :: "'id event \<Rightarrow> go_context list" where
  "create_of (EvCtxCreate ctx) = [ctx]"
| "create_of _ = []"

definition created_ctxs :: "'id event list \<Rightarrow> go_context list" where
  "created_ctxs tr = concat (map create_of tr)"

fun cancel_of :: "'id event \<Rightarrow> go_context list" where
  "cancel_of (EvCtxCancel ctx) = [ctx]"
| "cancel_of _ = []"

definition cancelled_ctxs :: "'id event list \<Rightarrow> go_context list" where
  "cancelled_ctxs tr = concat (map cancel_of tr)"

subsection \<open>A registry and a runtime to run the collector on\<close>

text \<open>
  The world counts the calls made so far. The registry returns three instances, the second
  without a container; the runtime fails for instance 1 and answers for the others. A
  second registry fails every call.
\<close>

definition scenario_instances :: "nat Instance list" where
  "scenario_instances =
     [\<lparr>ID = 1, ContainerID = ''c1''\<rparr>, \<lparr>ID = 2, ContainerID = []\<rparr>, \<lparr>ID = 3, ContainerID = ''c3''\<rparr>]"

definition scenario_db :: "(nat, nat) db" where
  "scenario_db =
     \<lparr>GetRunningInstances = (\<lambda>w. (Inr scenario_instances, Suc w)),
      PruneResourceUsage = (\<lambda>n w. (None, Suc w))\<rparr>"

definition failing_db :: "(nat, nat) db" where
  "failing_db =
     \<lparr>GetRunningInstances = (\<lambda>w. (Inl (Error ''connection refused''), Suc w)),
      PruneResourceUsage = (\<lambda>n w. (Some (Error ''connection refused''), Suc w))\<rparr>"

definition scenario_manager :: "(nat, nat, unit) Manager" where
  "scenario_manager =
     \<lparr>GetInstanceStats =
        (\<lambda>ctx i w. (if i = 1 then Inl (Error ''context deadline exceeded'') else Inr (), Suc w))\<rparr>"

definition scenario_collector :: "(nat, nat, unit) StatsCollector" where
  "scenario_collector = NewStatsCollector scenario_manager 0 (30 * Second)"

definition scenario_state :: "(nat, nat) state" where
  "scenario_state = \<lparr>world = 0, next_ctx = 0, trace = []\<rparr>"

section \<open>Properties\<close>

subsection \<open>Traces grow at the end\<close>

lemma stats_fetches_append: "stats_fetches (xs @ ys) = stats_fetches xs @ stats_fetches ys"
  by (simp add: stats_fetches_def)

lemma fetched_ids_append: "fetched_ids (xs @ ys) = fetched_ids xs @ fetched_ids ys"
  by (simp add: fetched_ids_def stats_fetches_append)

lemma prune_calls_append: "prune_calls (xs @ ys) = prune_calls xs @ prune_calls ys"
  by (simp add: prune_calls_def)

lemma registry_queries_append: "registry_queries (xs @ ys) = registry_queries xs + registry_queries ys"
  by (simp add: registry_queries_def)

lemma trace_emit: "trace (emit ev s) = trace s @ [ev]"
  by (simp add: emit_def)

lemma next_ctx_emit: "next_ctx (emit ev s) = next_ctx s"
  by (simp add: emit_def)

lemma world_emit: "world (emit ev s) = world s"
  by (simp add: emit_def)

lemma new_events_append: "trace s' = trace s @ evs \<Longrightarrow> new_events s s' = evs"
  by (simp add: new_events_def)

subsection \<open>The loop over the instances\<close>

lemma trace_collect_instance:
  "trace (collect_instance c inst s) = trace s @ pass_events c inst s"
  by (simp add: collect_instance_def pass_events_def WithTimeout_def cancel_def log_entry_def
      trace_emit world_emit Let_def split: prod.splits sum.splits)

lemma next_ctx_collect_instance:
  "next_ctx (collect_instance c inst s) = (if ContainerID inst = [] then next_ctx s else Suc (next_ctx s))"
  by (simp add: collect_instance_def WithTimeout_def cancel_def log_entry_def
      next_ctx_emit Let_def split: prod.splits sum.splits)

lemma collect_loop_append:
  "collect_loop c (xs @ ys) s = collect_loop c ys (collect_loop c xs s)"
  by (induction xs arbitrary: s) simp_all

lemma trace_collect_loop:
  "trace (collect_loop c xs s) = trace s @ loop_events c xs s"
  by (induction xs arbitrary: s) (simp_all add: trace_collect_instance)

lemma fetched_ids_pass_events:
  "fetched_ids (pass_events c inst s) = (if ContainerID inst = [] then [] else [ID inst])"
  by (auto simp add: pass_events_def fetched_ids_def stats_fetches_def Let_def split: sum.splits)

lemma fetched_ids_loop_events:
  "fetched_ids (loop_events c xs s) = map ID (filter has_container xs)"
  by (induction xs arbitrary: s)
     (simp_all add: fetched_ids_append fetched_ids_pass_events has_container_def,
      simp add: fetched_ids_def stats_fetches_def)

lemma pass_events_failure:
  assumes "ContainerID inst \<noteq> []"
      and "GetInstanceStats (manager c) (TimeoutCtx (next_ctx s) Background (5 * Second)) (ID inst) (world s) = (Inl err, w'')"
  shows "pass_events c inst s =
     [EvCtxCreate (TimeoutCtx (next_ctx s) Background (5 * Second)),
      EvStatsFetch (TimeoutCtx (next_ctx s) Background (5 * Second)) (ID inst),
      EvLog (logger c) ErrorLevel ''Failed to collect stats for instance''
        [(''instance_id'', FId (ID inst)), (''container_id'', FStr (ContainerID inst)),
         (''error'', FErr err)],
      EvCtxCancel (TimeoutCtx (next_ctx s) Background (5 * Second))]"
  using assms by (simp add: pass_events_def Let_def)

subsection \<open>One tick\<close>

lemma collectStats_failure:
  "GetRunningInstances d (world s) = (Inl err, w') \<Longrightarrow>
   collectStats d c s = (Some err, emit EvRegistryQuery (s\<lparr>world := w'\<rparr>))"
  by (simp add: collectStats_def)

lemma collectStats_success:
  "GetRunningInstances d (world s) = (Inr instances, w') \<Longrightarrow>
   collectStats d c s =
     (None, collect_loop c instances
        (log_entry (logger c) DebugLevel ''Collecting stats for running instances''
           [(''count'', FInt (int (length instances)))]
           (emit EvRegistryQuery (s\<lparr>world := w'\<rparr>))))"
  by (simp add: collectStats_def)

lemma new_events_collectStats_success:
  assumes "GetRunningInstances d (world s) = (Inr instances, w')"
  shows "new_events s (snd (collectStats d c s)) =
     [EvRegistryQuery,
      EvLog (logger c) DebugLevel ''Collecting stats for running instances''
        [(''count'', FInt (int (length instances)))]] @
     loop_events c instances
       (log_entry (logger c) DebugLevel ''Collecting stats for running instances''
           [(''count'', FInt (int (length instances)))]
           (emit EvRegistryQuery (s\<lparr>world := w'\<rparr>)))"
  by (rule new_events_append)
     (simp add: collectStats_success [OF assms] trace_collect_loop log_entry_def trace_emit)

lemma fetched_ids_tick_head:
  "fetched_ids (EvRegistryQuery # EvLog l lvl msg fs # evs) = fetched_ids evs"
  by (simp add: fetched_ids_def stats_fetches_def)

lemma fetched_ids_collectStats_success:
  assumes "GetRunningInstances d (world s) = (Inr instances, w')"
  shows "fetched_ids (new_events s (snd (collectStats d c s))) = map ID (filter has_container instances)"
  by (simp add: new_events_collectStats_success [OF assms] fetched_ids_tick_head
      fetched_ids_loop_events)

subsection \<open>The scenario\<close>

lemma scenario_registry:
  "GetRunningInstances scenario_db (world scenario_state) = (Inr scenario_instances, Suc 0)"
  by (simp add: scenario_db_def scenario_state_def)

lemma failing_registry:
  "GetRunningInstances failing_db (world scenario_state) = (Inl (Error ''connection refused''), Suc 0)"
  by (simp add: failing_db_def scenario_state_def)

lemma scenario_at:
  "collect_loop scenario_collector []
     (log_entry (logger scenario_collector) DebugLevel ''Collecting stats for running instances''
        [(''count'', FInt (int (length ([] @ \<lparr>ID = 1::nat, ContainerID = ''c1''\<rparr> #
             [\<lparr>ID = 2, ContainerID = []\<rparr>, \<lparr>ID = 3, ContainerID = ''c3''\<rparr>]))))]
        (emit EvRegistryQuery (scenario_state\<lparr>world := Suc 0\<rparr>)))
   = \<lparr>world = Suc 0, next_ctx = 0,
      trace = [EvRegistryQuery,
               EvLog 0 DebugLevel ''Collecting stats for running instances'' [(''count'', FInt 3)]]\<rparr>"
  by (simp add: scenario_collector_def NewStatsCollector_def log_entry_def emit_def scenario_state_def)

subsection \<open>What a tick does\<close>

text \<open>
  Claim C1. In a tick whose registry query succeeds, a stats fetch that fails (timeout or
  error) is logged with the instance and container identifiers and nothing more happens
  for that instance: the loop goes on with the instances after it, and a fetch is issued
  for each of them that has a container, in the registry's order. With the registry
  returning \<open>pre @ inst # post\<close> and the fetch for \<open>inst\<close> failing in the state
  \<open>s_at\<close> the loop is in when it reaches \<open>inst\<close>: the pass for \<open>inst\<close> adds the
  context, the fetch, the error entry and the cancel; the tick ends as the loop over
  \<open>post\<close> ends from there; the fetches after the failed one are those of \<open>post\<close>;
  and \<open>collectStats\<close> returns no error.
\<close>

theorem fetch_failure_does_not_abort_tick:
  assumes reg: "GetRunningInstances d (world s) = (Inr (pre @ inst # post), w')"
      and cont: "ContainerID inst \<noteq> []"
      and at: "s_at = collect_loop c pre
                 (log_entry (logger c) DebugLevel ''Collecting stats for running instances''
                    [(''count'', FInt (int (length (pre @ inst # post))))]
                    (emit EvRegistryQuery (s\<lparr>world := w'\<rparr>)))"
      and fail: "GetInstanceStats (manager c) (TimeoutCtx (next_ctx s_at) Background (5 * Second))
                   (ID inst) (world s_at) = (Inl err, w'')"
  shows "new_events s_at (collect_instance c inst s_at) =
           [EvCtxCreate (TimeoutCtx (next_ctx s_at) Background (5 * Second)),
            EvStatsFetch (TimeoutCtx (next_ctx s_at) Background (5 * Second)) (ID inst),
            EvLog (logger c) ErrorLevel ''Failed to collect stats for instance''
              [(''instance_id'', FId (ID inst)), (''container_id'', FStr (ContainerID inst)),
               (''error'', FErr err)],
            EvCtxCancel (TimeoutCtx (next_ctx s_at) Background (5 * Second))] \<and>
         snd (collectStats d c s) = collect_loop c post (collect_instance c inst s_at) \<and>
         fetched_ids (new_events (collect_instance c inst s_at) (snd (collectStats d c s))) =
           map ID (filter has_container post) \<and>
         fst (collectStats d c s) = None"
proof -
  have a: "new_events s_at (collect_instance c inst s_at) = pass_events c inst s_at"
    by (rule new_events_append) (rule trace_collect_instance)
  have b: "snd (collectStats d c s) = collect_loop c post (collect_instance c inst s_at)"
    by (simp add: collectStats_success [OF reg] at collect_loop_append del: length_append)
  have "new_events (collect_instance c inst s_at) (collect_loop c post (collect_instance c inst s_at))
          = loop_events c post (collect_instance c inst s_at)"
    by (rule new_events_append) (rule trace_collect_loop)
  then have e: "fetched_ids (new_events (collect_instance c inst s_at) (snd (collectStats d c s))) =
           map ID (filter has_container post)"
    by (simp add: b fetched_ids_loop_events)
  have f: "fst (collectStats d c s) = None"
    by (simp add: collectStats_success [OF reg])
  note a' = a [unfolded pass_events_failure [OF cont fail]]
  from a' b e f show ?thesis
    by (intro conjI)
qed

theorem fetch_failure_does_not_abort_tick_witness:
  "GetRunningInstances scenario_db (world scenario_state) =
     (Inr ([] @ \<lparr>ID = 1, ContainerID = ''c1''\<rparr> #
             [\<lparr>ID = 2, ContainerID = []\<rparr>, \<lparr>ID = 3, ContainerID = ''c3''\<rparr>]), Suc 0) \<and>
   ContainerID \<lparr>ID = 1::nat, ContainerID = ''c1''\<rparr> \<noteq> [] \<and>
   GetInstanceStats (manager scenario_collector) (TimeoutCtx 0 Background (5 * Second)) 1 (Suc 0) =
     (Inl (Error ''context deadline exceeded''), Suc (Suc 0)) \<and>
   fetched_ids (new_events scenario_state (snd (collectStats scenario_db scenario_collector scenario_state)))
     = [1, 3] \<and>
   fst (collectStats scenario_db scenario_collector scenario_state) = None"
proof -
  let ?inst = "\<lparr>ID = 1::nat, ContainerID = ''c1''\<rparr>"
  let ?post = "[\<lparr>ID = 2::nat, ContainerID = []\<rparr>, \<lparr>ID = 3, ContainerID = ''c3''\<rparr>]"
  let ?at = "\<lparr>world = Suc 0, next_ctx = 0,
      trace = [EvRegistryQuery,
               EvLog 0 DebugLevel ''Collecting stats for running instances'' [(''count'', FInt 3)]]\<rparr> :: (nat, nat) state"
  have reg: "GetRunningInstances scenario_db (world scenario_state) = (Inr ([] @ ?inst # ?post), Suc 0)"
    by (simp add: scenario_db_def scenario_instances_def scenario_state_def)
  have cont: "ContainerID ?inst \<noteq> []"
    by simp
  have fail: "GetInstanceStats (manager scenario_collector) (TimeoutCtx (next_ctx ?at) Background (5 * Second))
      (ID ?inst) (world ?at) = (Inl (Error ''context deadline exceeded''), Suc (Suc 0))"
    by (simp add: scenario_collector_def NewStatsCollector_def scenario_manager_def)
  have ids: "fetched_ids (new_events scenario_state (snd (collectStats scenario_db scenario_collector scenario_state)))
     = [1, 3]"
    by (simp add: fetched_ids_collectStats_success [OF scenario_registry] scenario_instances_def
        has_container_def)
  from fetch_failure_does_not_abort_tick [OF reg cont scenario_at [symmetric] fail] reg cont fail ids
  show ?thesis
    by simp
qed

text \<open>
  Claim C2. When the registry query of a tick fails, \<open>collectStats\<close> returns that error
  after the one query and nothing else: the tick adds the query to the trace and no other
  event, so no stats fetch is issued, no context is made, and the query is not repeated.
\<close>

theorem registry_failure_skips_tick:
  assumes "GetRunningInstances d (world s) = (Inl err, w')"
  shows "fst (collectStats d c s) = Some err \<and>
         new_events s (snd (collectStats d c s)) = [EvRegistryQuery] \<and>
         stats_fetches (new_events s (snd (collectStats d c s))) = [] \<and>
         registry_queries (new_events s (snd (collectStats d c s))) = 1 \<and>
         next_ctx (snd (collectStats d c s)) = next_ctx s"
proof -
  have ev: "new_events s (snd (collectStats d c s)) = [EvRegistryQuery]"
    by (rule new_events_append) (simp add: collectStats_failure [OF assms] trace_emit)
  show ?thesis
    by (simp add: ev) (simp add: collectStats_failure [OF assms] next_ctx_emit
        stats_fetches_def registry_queries_def)
qed

theorem registry_failure_skips_tick_witness:
  "GetRunningInstances failing_db (world scenario_state) = (Inl (Error ''connection refused''), Suc 0) \<and>
   fst (collectStats failing_db scenario_collector scenario_state) = Some (Error ''connection refused'') \<and>
   new_events scenario_state (snd (collectStats failing_db scenario_collector scenario_state)) = [EvRegistryQuery]"
  using registry_failure_skips_tick [OF failing_registry, of scenario_collector]
  by (simp add: failing_registry)

text \<open>
  Claim C3. An instance whose container identifier is the empty string is skipped
  silently: its pass of the loop leaves the state as it was (no fetch, no context, no log
  entry), the loop over a list with such an instance ends as the loop over the list
  without it, and the fetches of a tick whose registry returned \<open>pre @ inst # post\<close>
  are those of \<open>pre @ post\<close>.
\<close>

theorem empty_container_skipped:
  assumes "ContainerID inst = []"
  shows "collect_instance c inst s = s \<and>
         collect_loop c (pre @ inst # post) s = collect_loop c (pre @ post) s \<and>
         (GetRunningInstances d (world s) = (Inr (pre @ inst # post), w') \<longrightarrow>
            fetched_ids (new_events s (snd (collectStats d c s))) =
              map ID (filter has_container (pre @ post)))"
proof -
  have one: "collect_instance c inst s' = s'" for s'
    using assms by (simp add: collect_instance_def)
  have "\<not> has_container inst"
    using assms by (simp add: has_container_def)
  then have "filter has_container (pre @ inst # post) = filter has_container (pre @ post)"
    by simp
  then show ?thesis
    by (simp add: one collect_loop_append fetched_ids_collectStats_success)
qed

theorem empty_container_skipped_witness:
  "ContainerID \<lparr>ID = 2::nat, ContainerID = []\<rparr> = [] \<and>
   GetRunningInstances scenario_db (world scenario_state) =
     (Inr ([\<lparr>ID = 1, ContainerID = ''c1''\<rparr>] @ \<lparr>ID = 2, ContainerID = []\<rparr> # [\<lparr>ID = 3, ContainerID = ''c3''\<rparr>]), Suc 0) \<and>
   fetched_ids (new_events scenario_state (snd (collectStats scenario_db scenario_collector scenario_state)))
     = [1, 3]"
  using empty_container_skipped [of "\<lparr>ID = 2::nat, ContainerID = []\<rparr>" scenario_collector scenario_state
      "[\<lparr>ID = 1, ContainerID = ''c1''\<rparr>]" "[\<lparr>ID = 3, ContainerID = ''c3''\<rparr>]" scenario_db "Suc 0"]
  by (simp add: scenario_registry scenario_instances_def has_container_def)

text \<open>
  Claim C6. The stats fetches of a tick are issued in the order in which the registry
  returned the instances, one for each instance that has a container; for the registry
  result \<open>[{id:1, container:"c1"}, {id:2, container:""}, {id:3, container:"c3"}]\<close>
  these are exactly two fetches, for instance 1 and then for instance 3.
\<close>

theorem fetches_in_registry_order:
  assumes "GetRunningInstances d (world s) = (Inr instances, w')"
  shows "fetched_ids (new_events s (snd (collectStats d c s))) = map ID (filter has_container instances) \<and>
         (instances = [\<lparr>ID = i1, ContainerID = ''c1''\<rparr>, \<lparr>ID = i2, ContainerID = []\<rparr>,
                       \<lparr>ID = i3, ContainerID = ''c3''\<rparr>] \<longrightarrow>
            fetched_ids (new_events s (snd (collectStats d c s))) = [i1, i3])"
  by (simp add: fetched_ids_collectStats_success [OF assms] has_container_def)

theorem fetches_in_registry_order_witness:
  "GetRunningInstances scenario_db (world scenario_state) = (Inr scenario_instances, Suc 0) \<and>
   scenario_instances = [\<lparr>ID = 1, ContainerID = ''c1''\<rparr>, \<lparr>ID = 2, ContainerID = []\<rparr>,
                       \<lparr>ID = 3, ContainerID = ''c3''\<rparr>] \<and>
   fetched_ids (new_events scenario_state (snd (collectStats scenario_db scenario_collector scenario_state)))
     = [1, 3]"
  using fetches_in_registry_order [OF scenario_registry, of scenario_collector 1 2 3]
  by (simp add: scenario_registry scenario_instances_def has_container_def)

text \<open>
  Claim C10. \<open>collectStats\<close> returns an error exactly when the registry query fails;
  when the query succeeds it returns none, whatever the stats fetches return.
\<close>

theorem collectStats_error_iff_registry_fails:
  "(fst (collectStats d c s) \<noteq> None) = isl (fst (GetRunningInstances d (world s))) \<and>
   (\<forall>instances w'. GetRunningInstances d (world s) = (Inr instances, w') \<longrightarrow>
        fst (collectStats d c s) = None)"
  by (simp add: collectStats_def split: prod.splits sum.splits)

theorem collectStats_error_iff_registry_fails_witness:
  "GetRunningInstances scenario_db (world scenario_state) = (Inr scenario_instances, Suc 0) \<and>
   fst (collectStats scenario_db scenario_collector scenario_state) = None \<and>
   fst (GetInstanceStats (manager scenario_collector) (TimeoutCtx 0 Background (5 * Second)) 1 (Suc 0))
     = Inl (Error ''context deadline exceeded'') \<and>
   isl (fst (GetRunningInstances failing_db (world scenario_state))) \<and>
   fst (collectStats failing_db scenario_collector scenario_state) \<noteq> None"
  using collectStats_error_iff_registry_fails [of scenario_db scenario_collector scenario_state]
    collectStats_error_iff_registry_fails [of failing_db scenario_collector scenario_state]
  by (simp add: scenario_registry failing_registry scenario_collector_def NewStatsCollector_def
      scenario_manager_def)

subsection \<open>Contexts, pruning, stopping\<close>

lemma created_ctxs_append: "created_ctxs (xs @ ys) = created_ctxs xs @ created_ctxs ys"
  by (simp add: created_ctxs_def)

lemma cancelled_ctxs_append: "cancelled_ctxs (xs @ ys) = cancelled_ctxs xs @ cancelled_ctxs ys"
  by (simp add: cancelled_ctxs_def)

lemma pass_events_ctxs:
  "map fst (stats_fetches (pass_events c inst s)) =
     (if ContainerID inst = [] then [] else [TimeoutCtx (next_ctx s) Background (5 * Second)])"
  "created_ctxs (pass_events c inst s) =
     (if ContainerID inst = [] then [] else [TimeoutCtx (next_ctx s) Background (5 * Second)])"
  "cancelled_ctxs (pass_events c inst s) =
     (if ContainerID inst = [] then [] else [TimeoutCtx (next_ctx s) Background (5 * Second)])"
  by (auto simp add: pass_events_def stats_fetches_def created_ctxs_def cancelled_ctxs_def Let_def
      split: sum.splits)

lemma loop_events_fetch_ctxs:
  "map fst (stats_fetches (loop_events c xs s)) =
     map (\<lambda>k. TimeoutCtx k Background (5 * Second))
       [next_ctx s ..< next_ctx s + length (filter has_container xs)]"
proof (induction xs arbitrary: s)
  case Nil
  show ?case by (simp add: stats_fetches_def)
next
  case (Cons inst rest)
  show ?case
  proof (cases "ContainerID inst = []")
    case True
    then show ?thesis
      by (simp add: stats_fetches_append pass_events_ctxs Cons.IH next_ctx_collect_instance
          has_container_def)
  next
    case False
    then show ?thesis
      by (simp add: stats_fetches_append pass_events_ctxs Cons.IH next_ctx_collect_instance
          has_container_def upt_conv_Cons del: upt_Suc)
  qed
qed

lemma loop_events_created_ctxs:
  "created_ctxs (loop_events c xs s) = map fst (stats_fetches (loop_events c xs s))"
  by (induction xs arbitrary: s)
     (simp_all add: created_ctxs_def stats_fetches_def pass_events_ctxs [unfolded created_ctxs_def stats_fetches_def])

lemma loop_events_cancelled_ctxs:
  "cancelled_ctxs (loop_events c xs s) = map fst (stats_fetches (loop_events c xs s))"
  by (induction xs arbitrary: s)
     (simp_all add: cancelled_ctxs_def stats_fetches_def pass_events_ctxs [unfolded cancelled_ctxs_def stats_fetches_def])

lemma older_mono: "older n y \<Longrightarrow> older (Suc n) y"
  by (cases y) simp_all

lemma older_fresh:
  "list_all (older n) cancelled \<Longrightarrow> set (ctx_chain (TimeoutCtx n Background d)) \<inter> set cancelled = {}"
  by (induction cancelled) auto

lemma pass_events_unaffected:
  assumes "list_all (older (next_ctx s)) cancelled" and "ContainerID inst \<noteq> []"
  shows "fetches_unaffected cancelled (pass_events c inst s @ evs) =
         fetches_unaffected (TimeoutCtx (next_ctx s) Background (5 * Second) # cancelled) evs"
  using assms older_fresh [OF assms(1), of "5 * Second"]
  by (simp add: pass_events_def Let_def split: sum.splits)

lemma loop_events_unaffected:
  "list_all (older (next_ctx s)) cancelled \<Longrightarrow> fetches_unaffected cancelled (loop_events c xs s)"
proof (induction xs arbitrary: s cancelled)
  case Nil
  show ?case by simp
next
  case (Cons inst rest)
  show ?case
  proof (cases "ContainerID inst = []")
    case True
    with Cons show ?thesis
      by (simp add: pass_events_def next_ctx_collect_instance)
  next
    case False
    have "list_all (older (Suc (next_ctx s))) (TimeoutCtx (next_ctx s) Background (5 * Second) # cancelled)"
      using Cons.prems by (simp add: list_all_iff older_mono)
    then have "fetches_unaffected (TimeoutCtx (next_ctx s) Background (5 * Second) # cancelled)
        (loop_events c rest (collect_instance c inst s))"
      using False by (intro Cons.IH) (simp add: next_ctx_collect_instance)
    then show ?thesis
      using False by (simp add: pass_events_unaffected [OF Cons.prems False])
  qed
qed


lemma prune_calls_pass_events: "prune_calls (pass_events c inst s) = []"
  by (auto simp add: pass_events_def prune_calls_def Let_def split: sum.splits)

lemma prune_calls_loop_events: "prune_calls (loop_events c xs s) = []"
  by (induction xs arbitrary: s) (simp_all add: prune_calls_append prune_calls_pass_events, simp add: prune_calls_def)

lemma registry_queries_pass_events: "registry_queries (pass_events c inst s) = 0"
  by (auto simp add: pass_events_def registry_queries_def Let_def split: sum.splits)

lemma registry_queries_loop_events: "registry_queries (loop_events c xs s) = 0"
  by (induction xs arbitrary: s)
     (simp_all add: registry_queries_append registry_queries_pass_events, simp add: registry_queries_def)

text \<open>What a tick adds: no pruning call, one registry query.\<close>

lemma collectStats_extends:
  "\<exists>evs. trace (snd (collectStats d c s)) = trace s @ evs \<and> prune_calls evs = [] \<and>
         registry_queries evs = 1"
proof (cases "GetRunningInstances d (world s)")
  case (Pair res w')
  show ?thesis
  proof (cases res)
    case (Inl err)
    with Pair have "trace (snd (collectStats d c s)) = trace s @ [EvRegistryQuery]"
      by (simp add: collectStats_failure trace_emit)
    then show ?thesis
      by (simp add: prune_calls_def registry_queries_def)
  next
    case (Inr instances)
    let ?s0 = "log_entry (logger c) DebugLevel ''Collecting stats for running instances''
           [(''count'', FInt (int (length instances)))]
           (emit EvRegistryQuery (s\<lparr>world := w'\<rparr>))"
    let ?evs = "[EvRegistryQuery,
         EvLog (logger c) DebugLevel ''Collecting stats for running instances''
           [(''count'', FInt (int (length instances)))]] @ loop_events c instances ?s0"
    from Pair Inr have "trace (snd (collectStats d c s)) = trace s @ ?evs"
      by (simp add: collectStats_success trace_collect_loop log_entry_def trace_emit)
    moreover have "prune_calls ?evs = []"
      by (simp only: prune_calls_append prune_calls_loop_events) (simp add: prune_calls_def)
    moreover have "registry_queries ?evs = 1"
      by (simp only: registry_queries_append registry_queries_loop_events)
         (simp add: registry_queries_def)
    ultimately show ?thesis
      by blast
  qed
qed

lemma prune_calls_simps:
  "prune_calls [] = []"
  "prune_calls (EvPrune n # evs) = n # prune_calls evs"
  "prune_calls (EvRegistryQuery # evs) = prune_calls evs"
  "prune_calls (EvCloseStopChan # evs) = prune_calls evs"
  "prune_calls (EvLog l lvl msg fs # evs) = prune_calls evs"
  by (simp_all add: prune_calls_def)

lemma select_stmt_extends:
  "\<exists>evs. trace (st (select_stmt d pick r)) = trace (st r) @ evs \<and> prune_calls evs = []"
proof -
  obtain evs where evs: "trace (snd (collectStats d (collector r) (st r))) = trace (st r) @ evs"
      "prune_calls evs = []"
    using collectStats_extends by blast
  show ?thesis
  proof (cases "tickerC r \<and> (stopChan (collector r) \<noteq> Closed \<or> pick = RecvTick)")
    case True
    show ?thesis
    proof (cases "collectStats d (collector r) (st r)")
      case (Pair res s1)
      with evs have s1: "trace s1 = trace (st r) @ evs"
        by simp
      show ?thesis
      proof (cases res)
        case None
        with True Pair s1 evs(2) show ?thesis
          by (simp add: select_stmt_def Let_def)
      next
        case (Some err)
        with True Pair s1 have tr: "trace (st (select_stmt d pick r)) =
            trace (st r) @ (evs @ [EvLog (logger (collector r)) ErrorLevel ''Failed to collect stats''
               [(''error'', FErr err)]])"
          by (simp add: select_stmt_def Let_def log_entry_def trace_emit)
        show ?thesis
          unfolding tr by (simp add: prune_calls_append evs(2) prune_calls_simps)
      qed
    qed
  next
    case False
    show ?thesis
    proof (cases "stopChan (collector r) = Closed")
      case True
      with False have tr: "trace (st (select_stmt d pick r)) =
          trace (st r) @ [EvLog (logger (collector r)) InfoLevel ''Stats collector stopped'' []]"
        by (auto simp add: select_stmt_def Let_def log_entry_def trace_emit)
      show ?thesis
        unfolding tr by (simp add: prune_calls_simps)
    next
      case notclosed: False
      with False have "select_stmt d pick r = r"
        by (auto simp add: select_stmt_def Let_def)
      then show ?thesis
        by (simp add: prune_calls_simps)
    qed
  qed
qed

lemma occur_extends:
  "\<exists>evs. trace (st (occur d oc r)) = trace (st r) @ evs \<and> prune_calls evs = []"
proof (cases oc)
  case TimerFires
  then show ?thesis
    by (simp add: occur_def prune_calls_def)
next
  case StopCalled
  show ?thesis
  proof (cases "Stop (collector r)")
    case (Inl p)
    with StopCalled show ?thesis
      by (simp add: occur_def prune_calls_def)
  next
    case (Inr c')
    with StopCalled have "trace (st (occur d oc r)) = trace (st r) @ [EvCloseStopChan]"
      by (simp add: occur_def trace_emit)
    then show ?thesis
      by (simp add: prune_calls_def)
  qed
next
  case (Scheduled pick)
  then show ?thesis
    using select_stmt_extends [of d pick r] by (simp add: occur_def)
qed

lemma run_loop_extends:
  "\<exists>evs. trace (st (run_loop d ocs r)) = trace (st r) @ evs \<and> prune_calls evs = []"
proof (induction ocs arbitrary: r)
  case Nil
  show ?case by (simp add: prune_calls_def)
next
  case (Cons oc ocs)
  show ?case
  proof (cases "status r")
    case Selecting
    obtain a where a: "trace (st (occur d oc r)) = trace (st r) @ a" "prune_calls a = []"
      using occur_extends by blast
    obtain b where b: "trace (st (run_loop d ocs (occur d oc r))) = trace (st (occur d oc r)) @ b"
        "prune_calls b = []"
      using Cons.IH by blast
    from Selecting a b have "trace (st (run_loop d (oc # ocs) r)) = trace (st r) @ (a @ b)"
      by simp
    moreover from a b have "prune_calls (a @ b) = []"
      by (simp add: prune_calls_append)
    ultimately show ?thesis
      by blast
  next
    case Returned
    then show ?thesis by (simp add: prune_calls_def)
  next
    case (Panicked p)
    then show ?thesis by (simp add: prune_calls_def)
  qed
qed


lemma new_events_collect_instance:
  "new_events s (collect_instance c inst s) = pass_events c inst s"
  by (rule new_events_append) (rule trace_collect_instance)

lemma tick_head_ctxs:
  "stats_fetches (EvRegistryQuery # EvLog l lvl msg fs # evs) = stats_fetches evs"
  "created_ctxs (EvRegistryQuery # EvLog l lvl msg fs # evs) = created_ctxs evs"
  "cancelled_ctxs (EvRegistryQuery # EvLog l lvl msg fs # evs) = cancelled_ctxs evs"
  "fetches_unaffected cancelled (EvRegistryQuery # EvLog l lvl msg fs # evs) =
     fetches_unaffected cancelled evs"
  by (simp_all add: stats_fetches_def created_ctxs_def cancelled_ctxs_def)

lemma distinct_fresh_ctxs:
  "distinct (map (\<lambda>k. TimeoutCtx k Background d) [n ..< m])"
  by (simp add: distinct_map inj_on_def)

text \<open>
  Claim C7. For an instance with a container, the pass of the loop makes a context with
  \<open>context.WithTimeout(context.Background(), 5*time.Second)\<close>, issues the stats fetch
  on that context, logs a failure if there is one, and cancels that context: these events
  and no others, and the context counter moves on by one. The timeout is 5 000 000 000 ns.
  Over a tick, the contexts of the fetches are new ones, one per fetch and all different,
  each a child of the background context with the 5 second timeout; the contexts made and
  the contexts cancelled in the tick are exactly the contexts of its fetches; and no fetch
  runs on a context that was cancelled before it, nor on one derived from such a context,
  whichever earlier contexts are cancelled.
\<close>

theorem fetch_context_fresh_5s:
  "(ContainerID inst \<noteq> [] \<longrightarrow>
      new_events s (collect_instance c inst s) =
        [EvCtxCreate (TimeoutCtx (next_ctx s) Background (5 * Second)),
         EvStatsFetch (TimeoutCtx (next_ctx s) Background (5 * Second)) (ID inst)] @
        (case fst (GetInstanceStats (manager c) (TimeoutCtx (next_ctx s) Background (5 * Second))
                     (ID inst) (world s)) of
           Inl err \<Rightarrow> [EvLog (logger c) ErrorLevel ''Failed to collect stats for instance''
                        [(''instance_id'', FId (ID inst)),
                         (''container_id'', FStr (ContainerID inst)),
                         (''error'', FErr err)]]
         | Inr _ \<Rightarrow> []) @
        [EvCtxCancel (TimeoutCtx (next_ctx s) Background (5 * Second))] \<and>
      next_ctx (collect_instance c inst s) = Suc (next_ctx s)) \<and>
   5 * Second = 5000000000 \<and>
   (GetRunningInstances d (world s) = (Inr instances, w') \<longrightarrow>
      map fst (stats_fetches (new_events s (snd (collectStats d c s)))) =
        map (\<lambda>k. TimeoutCtx k Background (5 * Second))
          [next_ctx s ..< next_ctx s + length (filter has_container instances)] \<and>
      distinct (map fst (stats_fetches (new_events s (snd (collectStats d c s))))) \<and>
      created_ctxs (new_events s (snd (collectStats d c s))) =
        map fst (stats_fetches (new_events s (snd (collectStats d c s)))) \<and>
      cancelled_ctxs (new_events s (snd (collectStats d c s))) =
        map fst (stats_fetches (new_events s (snd (collectStats d c s)))) \<and>
      (list_all (older (next_ctx s)) cancelled \<longrightarrow>
         fetches_unaffected cancelled (new_events s (snd (collectStats d c s)))))"
proof -
  have pass: "ContainerID inst \<noteq> [] \<longrightarrow>
      new_events s (collect_instance c inst s) =
        [EvCtxCreate (TimeoutCtx (next_ctx s) Background (5 * Second)),
         EvStatsFetch (TimeoutCtx (next_ctx s) Background (5 * Second)) (ID inst)] @
        (case fst (GetInstanceStats (manager c) (TimeoutCtx (next_ctx s) Background (5 * Second))
                     (ID inst) (world s)) of
           Inl err \<Rightarrow> [EvLog (logger c) ErrorLevel ''Failed to collect stats for instance''
                        [(''instance_id'', FId (ID inst)),
                         (''container_id'', FStr (ContainerID inst)),
                         (''error'', FErr err)]]
         | Inr _ \<Rightarrow> []) @
        [EvCtxCancel (TimeoutCtx (next_ctx s) Background (5 * Second))] \<and>
      next_ctx (collect_instance c inst s) = Suc (next_ctx s)"
    by (simp add: new_events_collect_instance next_ctx_collect_instance pass_events_def Let_def)
  have five: "5 * Second = 5000000000"
    by (simp add: Second_def)
  have tick: "map fst (stats_fetches (new_events s (snd (collectStats d c s)))) =
        map (\<lambda>k. TimeoutCtx k Background (5 * Second))
          [next_ctx s ..< next_ctx s + length (filter has_container instances)] \<and>
      distinct (map fst (stats_fetches (new_events s (snd (collectStats d c s))))) \<and>
      created_ctxs (new_events s (snd (collectStats d c s))) =
        map fst (stats_fetches (new_events s (snd (collectStats d c s)))) \<and>
      cancelled_ctxs (new_events s (snd (collectStats d c s))) =
        map fst (stats_fetches (new_events s (snd (collectStats d c s)))) \<and>
      (list_all (older (next_ctx s)) cancelled \<longrightarrow>
         fetches_unaffected cancelled (new_events s (snd (collectStats d c s))))"
    if reg: "GetRunningInstances d (world s) = (Inr instances, w')"
  proof -
    let ?s0 = "log_entry (logger c) DebugLevel ''Collecting stats for running instances''
           [(''count'', FInt (int (length instances)))]
           (emit EvRegistryQuery (s\<lparr>world := w'\<rparr>))"
    have n0: "next_ctx ?s0 = next_ctx s"
      by (simp add: log_entry_def next_ctx_emit)
    have f: "map fst (stats_fetches (new_events s (snd (collectStats d c s)))) =
        map (\<lambda>k. TimeoutCtx k Background (5 * Second))
          [next_ctx s ..< next_ctx s + length (filter has_container instances)]"
      by (simp add: new_events_collectStats_success [OF reg] tick_head_ctxs
          loop_events_fetch_ctxs n0)
    have cr: "created_ctxs (new_events s (snd (collectStats d c s))) =
        map fst (stats_fetches (new_events s (snd (collectStats d c s))))"
      by (simp add: new_events_collectStats_success [OF reg] tick_head_ctxs
          loop_events_created_ctxs)
    have ca: "cancelled_ctxs (new_events s (snd (collectStats d c s))) =
        map fst (stats_fetches (new_events s (snd (collectStats d c s))))"
      by (simp add: new_events_collectStats_success [OF reg] tick_head_ctxs
          loop_events_cancelled_ctxs)
    have un: "fetches_unaffected cancelled (new_events s (snd (collectStats d c s)))"
      if "list_all (older (next_ctx s)) cancelled"
      using that
      by (simp add: new_events_collectStats_success [OF reg] tick_head_ctxs
          loop_events_unaffected n0)
    have di: "distinct (map fst (stats_fetches (new_events s (snd (collectStats d c s)))))"
      unfolding f by (rule distinct_fresh_ctxs)
    from f di cr ca un show ?thesis
      by blast
  qed
  from pass five tick show ?thesis
    by blast
qed


theorem fetch_context_fresh_5s_witness:
  "ContainerID \<lparr>ID = 1::nat, ContainerID = ''c1''\<rparr> \<noteq> [] \<and>
   GetRunningInstances scenario_db (world (scenario_state\<lparr>next_ctx := 2\<rparr>)) =
     (Inr scenario_instances, Suc 0) \<and>
   list_all (older (next_ctx (scenario_state\<lparr>next_ctx := 2\<rparr>)))
     [TimeoutCtx 0 Background (5 * Second), TimeoutCtx 1 Background (5 * Second)] \<and>
   new_events (scenario_state\<lparr>next_ctx := 2\<rparr>)
       (collect_instance scenario_collector \<lparr>ID = 1, ContainerID = ''c1''\<rparr>
          (scenario_state\<lparr>next_ctx := 2\<rparr>)) =
     [EvCtxCreate (TimeoutCtx 2 Background 5000000000),
      EvStatsFetch (TimeoutCtx 2 Background 5000000000) 1,
      EvLog 0 ErrorLevel ''Failed to collect stats for instance''
        [(''instance_id'', FId 1), (''container_id'', FStr ''c1''),
         (''error'', FErr (Error ''context deadline exceeded''))],
      EvCtxCancel (TimeoutCtx 2 Background 5000000000)] \<and>
   map fst (stats_fetches (new_events (scenario_state\<lparr>next_ctx := 2\<rparr>)
       (snd (collectStats scenario_db scenario_collector (scenario_state\<lparr>next_ctx := 2\<rparr>))))) =
     [TimeoutCtx 2 Background 5000000000, TimeoutCtx 3 Background 5000000000] \<and>
   fetches_unaffected [TimeoutCtx 0 Background (5 * Second), TimeoutCtx 1 Background (5 * Second)]
     (new_events (scenario_state\<lparr>next_ctx := 2\<rparr>)
       (snd (collectStats scenario_db scenario_collector (scenario_state\<lparr>next_ctx := 2\<rparr>))))"
  using fetch_context_fresh_5s [of "\<lparr>ID = 1::nat, ContainerID = ''c1''\<rparr>"
      "scenario_state\<lparr>next_ctx := 2\<rparr>" scenario_collector scenario_db scenario_instances "Suc 0"
      "[TimeoutCtx 0 Background (5 * Second), TimeoutCtx 1 Background (5 * Second)]"]
  by (simp add: scenario_state_def scenario_db_def scenario_instances_def has_container_def
      scenario_collector_def NewStatsCollector_def scenario_manager_def upt_conv_Cons)

lemma cleanupOldStats_trace:
  "trace (snd (cleanupOldStats d c s)) = trace s @ [EvPrune (maxPerInstance c)]"
  by (simp add: cleanupOldStats_def trace_emit split: prod.splits)

lemma cleanupOldStats_result:
  "fst (cleanupOldStats d c s) = fst (PruneResourceUsage d (maxPerInstance c) (world s))"
  by (simp add: cleanupOldStats_def split: prod.splits)

text \<open>The state in which the loop of \<open>run\<close> starts.\<close>

lemma run_positive:
  assumes "0 < collectionRate c"
  shows "\<exists>r0 logs. run d c ocs s = run_loop d ocs r0 \<and> status r0 = Selecting \<and> collector r0 = c \<and>
           \<not> tickerC r0 \<and>
           trace (st r0) = trace s @ EvPrune (maxPerInstance c) # logs \<and>
           logs = (case fst (PruneResourceUsage d (maxPerInstance c) (world s)) of
                     None \<Rightarrow> []
                   | Some err \<Rightarrow> [EvLog (logger c) ErrorLevel ''Failed to clean up old stats''
                                    [(''error'', FErr err)]])"
proof (cases "cleanupOldStats d c s")
  case (Pair res s1)
  then have s1: "trace s1 = trace s @ [EvPrune (maxPerInstance c)]"
      and res: "fst (PruneResourceUsage d (maxPerInstance c) (world s)) = res"
    using cleanupOldStats_trace [of d c s] cleanupOldStats_result [of d c s] by simp_all
  show ?thesis
  proof (cases res)
    case None
    with assms Pair have "run d c ocs s =
        run_loop d ocs \<lparr>status = Selecting, collector = c, tickerC = False, st = s1\<rparr>"
      by (simp add: run_def)
    with s1 res None show ?thesis
      by (intro exI [of _ "\<lparr>status = Selecting, collector = c, tickerC = False, st = s1\<rparr>"])
         simp
  next
    case (Some err)
    with assms Pair have "run d c ocs s =
        run_loop d ocs \<lparr>status = Selecting, collector = c, tickerC = False,
            st = log_entry (logger c) ErrorLevel ''Failed to clean up old stats''
                   [(''error'', FErr err)] s1\<rparr>"
      by (simp add: run_def)
    with s1 res Some show ?thesis
      by (intro exI [of _ "\<lparr>status = Selecting, collector = c, tickerC = False,
            st = log_entry (logger c) ErrorLevel ''Failed to clean up old stats''
                   [(''error'', FErr err)] s1\<rparr>"])
         (simp add: log_entry_def trace_emit)
  qed
qed

lemma run_prune_calls:
  "prune_calls (new_events s (st (run d c ocs s))) =
     (if 0 < collectionRate c then [maxPerInstance c] else [])"
proof (cases "0 < collectionRate c")
  case True
  obtain r0 logs where r0: "run d c ocs s = run_loop d ocs r0"
      "trace (st r0) = trace s @ EvPrune (maxPerInstance c) # logs"
      "logs = (case fst (PruneResourceUsage d (maxPerInstance c) (world s)) of
                     None \<Rightarrow> []
                   | Some err \<Rightarrow> [EvLog (logger c) ErrorLevel ''Failed to clean up old stats''
                                    [(''error'', FErr err)]])"
    using run_positive [OF True] by blast
  obtain evs where evs: "trace (st (run_loop d ocs r0)) = trace (st r0) @ evs" "prune_calls evs = []"
    using run_loop_extends by blast
  have "new_events s (st (run d c ocs s)) = EvPrune (maxPerInstance c) # logs @ evs"
    by (rule new_events_append) (simp add: r0 evs)
  moreover have "prune_calls logs = []"
    by (simp add: r0(3) prune_calls_simps split: option.splits)
  ultimately show ?thesis
    using True by (simp add: prune_calls_simps prune_calls_append evs)
next
  case False
  then have "new_events s (st (run d c ocs s)) = []"
    by (simp add: run_def new_events_def)
  with False show ?thesis
    by (simp add: prune_calls_simps)
qed

text \<open>
  Claim C8. A collector made by \<open>NewStatsCollector\<close> has the cap 100;
  \<open>cleanupOldStats\<close> on it calls the storage pruning operation once, with 100, and
  returns what that call returns; and the pruning calls of a run of such a collector are
  that one call with 100 (none when the ticker cannot be made).
\<close>

theorem new_collector_cap_100:
  "maxPerInstance (NewStatsCollector m l rate) = 100 \<and>
   new_events s (snd (cleanupOldStats d (NewStatsCollector m l rate) s)) = [EvPrune 100] \<and>
   fst (cleanupOldStats d (NewStatsCollector m l rate) s) = fst (PruneResourceUsage d 100 (world s)) \<and>
   prune_calls (new_events s (st (run d (NewStatsCollector m l rate) ocs s))) =
     (if 0 < rate then [100] else [])"
proof -
  have cap: "maxPerInstance (NewStatsCollector m l rate) = 100"
    by (simp add: NewStatsCollector_def)
  have rate: "collectionRate (NewStatsCollector m l rate) = rate"
    by (simp add: NewStatsCollector_def)
  have "new_events s (snd (cleanupOldStats d (NewStatsCollector m l rate) s)) = [EvPrune 100]"
    by (rule new_events_append) (simp add: cleanupOldStats_trace cap)
  then show ?thesis
    by (simp add: cap rate cleanupOldStats_result run_prune_calls)
qed

theorem new_collector_cap_100_witness:
  "maxPerInstance scenario_collector = 100 \<and>
   new_events scenario_state (snd (cleanupOldStats failing_db scenario_collector scenario_state)) =
     [EvPrune 100] \<and>
   prune_calls (new_events scenario_state
      (st (run scenario_db scenario_collector [TimerFires, Scheduled RecvTick, TimerFires, Scheduled RecvTick]
         scenario_state))) = [100]"
  using new_collector_cap_100 [of scenario_manager 0 "30 * Second" scenario_state failing_db]
    new_collector_cap_100 [of scenario_manager 0 "30 * Second" scenario_state scenario_db
      "[TimerFires, Scheduled RecvTick, TimerFires, Scheduled RecvTick]"]
  by (simp add: scenario_collector_def Second_def)

text \<open>
  Claim C9. \<open>Stop\<close> is not idempotent: whenever a call of \<open>Stop\<close> returns, the next
  call on the same collector panics, closing a closed channel. For a collector made by
  \<open>NewStatsCollector\<close> the first call returns and the second panics.
\<close>

theorem second_Stop_panics:
  "(Stop c = Inr c' \<longrightarrow> Stop c' = Inl CloseOfClosedChannel) \<and>
   (\<exists>c1. Stop (NewStatsCollector m l rate) = Inr c1 \<and> Stop c1 = Inl CloseOfClosedChannel)"
proof -
  have "Stop c' = Inl CloseOfClosedChannel" if "Stop c = Inr c'"
    using that by (cases "stopChan c") (auto simp add: Stop_def)
  moreover have "Stop (NewStatsCollector m l rate) = Inr (NewStatsCollector m l rate\<lparr>stopChan := Closed\<rparr>)"
    by (simp add: Stop_def NewStatsCollector_def)
  moreover have "Stop (NewStatsCollector m l rate\<lparr>stopChan := Closed\<rparr>) = Inl CloseOfClosedChannel"
    by (simp add: Stop_def NewStatsCollector_def)
  ultimately show ?thesis
    by blast
qed

theorem second_Stop_panics_witness:
  "Stop scenario_collector = Inr (scenario_collector\<lparr>stopChan := Closed\<rparr>) \<and>
   Stop (scenario_collector\<lparr>stopChan := Closed\<rparr>) = Inl CloseOfClosedChannel"
  using second_Stop_panics [of scenario_collector "scenario_collector\<lparr>stopChan := Closed\<rparr>"]
  by (simp add: Stop_def scenario_collector_def NewStatsCollector_def)

subsection \<open>Running and stopping\<close>

lemma run_loop_not_selecting: "status r \<noteq> Selecting \<Longrightarrow> run_loop d ocs r = r"
  by (cases ocs; cases "status r") simp_all

lemma run_loop_append: "run_loop d (xs @ ys) r = run_loop d ys (run_loop d xs r)"
proof (induction xs arbitrary: r)
  case Nil
  show ?case by simp
next
  case (Cons oc xs)
  show ?case
  proof (cases "status r = Selecting")
    case True
    then show ?thesis by (simp add: Cons.IH)
  next
    case False
    then have "run_loop d ((oc # xs) @ ys) r = r" and "run_loop d (oc # xs) r = r"
        and "run_loop d ys r = r"
      by (rule run_loop_not_selecting)+
    then show ?thesis
      by simp
  qed
qed

lemma registry_queries_simps:
  "registry_queries [] = 0"
  "registry_queries (EvPrune n # evs) = registry_queries evs"
  "registry_queries (EvRegistryQuery # evs) = Suc (registry_queries evs)"
  "registry_queries (EvCloseStopChan # evs) = registry_queries evs"
  "registry_queries (EvLog l lvl msg fs # evs) = registry_queries evs"
  by (simp_all add: registry_queries_def)

text \<open>The select takes the tick: the tick runs and the loop goes on, whatever failed.\<close>

lemma select_stmt_tick:
  assumes "tickerC r" and "stopChan (collector r) \<noteq> Closed \<or> pick = RecvTick"
  shows "\<exists>evs. trace (st (select_stmt d pick r)) = trace (st r) @ evs \<and> registry_queries evs = 1 \<and>
           status (select_stmt d pick r) = status r \<and>
           collector (select_stmt d pick r) = collector r"
proof -
  obtain evs where evs: "trace (snd (collectStats d (collector r) (st r))) = trace (st r) @ evs"
      "registry_queries evs = 1"
    using collectStats_extends by blast
  show ?thesis
  proof (cases "collectStats d (collector r) (st r)")
    case (Pair res s1)
    with evs have s1: "trace s1 = trace (st r) @ evs"
      by simp
    show ?thesis
    proof (cases res)
      case None
      with assms Pair s1 evs(2) show ?thesis
        by (simp add: select_stmt_def Let_def)
    next
      case (Some err)
      with assms Pair s1 have tr: "trace (st (select_stmt d pick r)) =
          trace (st r) @ (evs @ [EvLog (logger (collector r)) ErrorLevel ''Failed to collect stats''
             [(''error'', FErr err)]])"
        and rest: "status (select_stmt d pick r) = status r"
          "collector (select_stmt d pick r) = collector r"
        by (simp_all add: select_stmt_def Let_def log_entry_def trace_emit)
      show ?thesis
        unfolding tr rest
        by (simp add: registry_queries_append evs(2) registry_queries_simps)
    qed
  qed
qed

text \<open>The select takes the stop case: the loop returns after the one log entry.\<close>

lemma select_stmt_stop:
  assumes "stopChan (collector r) = Closed" and "\<not> tickerC r \<or> pick = RecvStop"
  shows "select_stmt d pick r =
           r\<lparr>status := Returned,
             st := log_entry (logger (collector r)) InfoLevel ''Stats collector stopped'' [] (st r)\<rparr>"
  using assms by (auto simp add: select_stmt_def Let_def)

lemma select_stmt_blocked:
  assumes "stopChan (collector r) \<noteq> Closed" and "\<not> tickerC r"
  shows "select_stmt d pick r = r"
  using assms by (simp add: select_stmt_def Let_def)

lemma select_stmt_cases:
  "(tickerC r \<and> (stopChan (collector r) \<noteq> Closed \<or> pick = RecvTick)) \<or>
   (stopChan (collector r) = Closed \<and> (\<not> tickerC r \<or> pick = RecvStop)) \<or>
   (stopChan (collector r) \<noteq> Closed \<and> \<not> tickerC r)"
  by (cases pick) auto

lemma occur_Returned:
  assumes "status r = Selecting" and "status (occur d oc r) = Returned"
  shows "stopChan (collector r) = Closed \<and> collector (occur d oc r) = collector r \<and>
         (\<exists>pick. oc = Scheduled pick) \<and>
         trace (st (occur d oc r)) =
           trace (st r) @ [EvLog (logger (collector r)) InfoLevel ''Stats collector stopped'' []]"
proof (cases oc)
  case TimerFires
  with assms show ?thesis by (simp add: occur_def)
next
  case StopCalled
  with assms show ?thesis by (simp add: occur_def split: sum.splits)
next
  case (Scheduled pick)
  from select_stmt_cases [of r pick] show ?thesis
  proof (elim disjE)
    assume c: "tickerC r \<and> (stopChan (collector r) \<noteq> Closed \<or> pick = RecvTick)"
    then have "status (select_stmt d pick r) = status r"
      using select_stmt_tick [of r pick d] by blast
    with assms Scheduled show ?thesis by (simp add: occur_def)
  next
    assume c: "stopChan (collector r) = Closed \<and> (\<not> tickerC r \<or> pick = RecvStop)"
    then have "select_stmt d pick r =
           r\<lparr>status := Returned,
             st := log_entry (logger (collector r)) InfoLevel ''Stats collector stopped'' [] (st r)\<rparr>"
      by (intro select_stmt_stop) simp_all
    with c Scheduled show ?thesis
      by (simp add: occur_def log_entry_def trace_emit)
  next
    assume c: "stopChan (collector r) \<noteq> Closed \<and> \<not> tickerC r"
    then have "select_stmt d pick r = r"
      by (intro select_stmt_blocked) simp_all
    with assms Scheduled show ?thesis by (simp add: occur_def)
  qed
qed

lemma occur_collector:
  assumes "oc \<noteq> StopCalled"
  shows "collector (occur d oc r) = collector r"
proof (cases oc)
  case TimerFires
  then show ?thesis by (simp add: occur_def)
next
  case StopCalled
  with assms show ?thesis by simp
next
  case (Scheduled pick)
  from select_stmt_cases [of r pick] show ?thesis
  proof (elim disjE)
    assume "tickerC r \<and> (stopChan (collector r) \<noteq> Closed \<or> pick = RecvTick)"
    then show ?thesis
      using select_stmt_tick [of r pick d] Scheduled by (auto simp add: occur_def)
  next
    assume "stopChan (collector r) = Closed \<and> (\<not> tickerC r \<or> pick = RecvStop)"
    then show ?thesis
      using select_stmt_stop [of r pick d] Scheduled by (simp add: occur_def)
  next
    assume "stopChan (collector r) \<noteq> Closed \<and> \<not> tickerC r"
    then show ?thesis
      using select_stmt_blocked [of r d pick] Scheduled by (simp add: occur_def)
  qed
qed

lemma occur_stays_selecting:
  assumes "status r = Selecting" and "oc \<noteq> StopCalled" and "stopChan (collector r) \<noteq> Closed"
  shows "status (occur d oc r) = Selecting"
proof (cases oc)
  case TimerFires
  with assms show ?thesis by (simp add: occur_def)
next
  case StopCalled
  with assms show ?thesis by simp
next
  case (Scheduled pick)
  show ?thesis
  proof (cases "tickerC r")
    case True
    with assms Scheduled show ?thesis
      using select_stmt_tick [of r pick d] by (auto simp add: occur_def)
  next
    case False
    with assms Scheduled show ?thesis
      using select_stmt_blocked [of r d pick] by (simp add: occur_def)
  qed
qed

lemma run_loop_Returned:
  assumes "status r = Selecting" and "status (run_loop d ocs r) = Returned"
  shows "(stopChan (collector r) = Closed \<or> StopCalled \<in> set ocs) \<and>
         stopChan (collector (run_loop d ocs r)) = Closed \<and>
         last (trace (st (run_loop d ocs r))) =
           EvLog (logger (collector (run_loop d ocs r))) InfoLevel ''Stats collector stopped'' []"
  using assms
proof (induction ocs arbitrary: r)
  case Nil
  then show ?case by simp
next
  case (Cons oc ocs)
  let ?r' = "occur d oc r"
  from Cons.prems have step: "run_loop d (oc # ocs) r = run_loop d ocs ?r'"
    by simp
  show ?case
  proof (cases "status ?r'")
    case Selecting
    from Cons.prems(2) step have "status (run_loop d ocs ?r') = Returned"
      by simp
    from Cons.IH [OF Selecting this]
    have ih: "stopChan (collector ?r') = Closed \<or> StopCalled \<in> set ocs"
      "stopChan (collector (run_loop d ocs ?r')) = Closed"
      "last (trace (st (run_loop d ocs ?r'))) =
           EvLog (logger (collector (run_loop d ocs ?r'))) InfoLevel ''Stats collector stopped'' []"
      by simp_all
    have "stopChan (collector r) = Closed \<or> StopCalled \<in> set (oc # ocs)"
    proof (cases "oc = StopCalled")
      case True
      then show ?thesis by simp
    next
      case False
      with ih(1) occur_collector [OF False, of d r] show ?thesis by auto
    qed
    with ih(2,3) step show ?thesis
      by simp
  next
    case Returned
    then have same: "run_loop d ocs ?r' = ?r'"
      by (simp add: run_loop_not_selecting)
    from occur_Returned [OF Cons.prems(1) Returned] same step show ?thesis
      by simp
  next
    case (Panicked p)
    then have "run_loop d ocs ?r' = ?r'"
      by (simp add: run_loop_not_selecting)
    with Cons.prems(2) step Panicked show ?thesis
      by simp
  qed
qed

lemma run_loop_stays_selecting:
  assumes "status r = Selecting" and "StopCalled \<notin> set ocs" and "stopChan (collector r) \<noteq> Closed"
  shows "status (run_loop d ocs r) = Selecting"
  using assms
proof (induction ocs arbitrary: r)
  case Nil
  then show ?case by simp
next
  case (Cons oc ocs)
  from Cons.prems have oc: "oc \<noteq> StopCalled" and rest: "StopCalled \<notin> set ocs"
    by auto
  have "status (occur d oc r) = Selecting"
    by (rule occur_stays_selecting [OF Cons.prems(1) oc Cons.prems(3)])
  moreover have "stopChan (collector (occur d oc r)) \<noteq> Closed"
    using Cons.prems(3) by (simp add: occur_collector [OF oc])
  ultimately have "status (run_loop d ocs (occur d oc r)) = Selecting"
    using rest by (intro Cons.IH)
  with Cons.prems(1) show ?case
    by simp
qed


lemmas scenario_defs =
  scenario_collector_def scenario_db_def failing_db_def scenario_manager_def scenario_state_def
  scenario_instances_def NewStatsCollector_def

lemmas run_defs =
  run_def occur_def select_stmt_def collectStats_def collect_instance_def cleanupOldStats_def
  Stop_def WithTimeout_def cancel_def log_entry_def emit_def Let_def

text \<open>
  Claim C5, as stated, fails. The ticker delivers a tick, another goroutine calls
  \<open>Stop\<close>, and then the goroutine of \<open>run\<close> evaluates its \<open>select\<close>: both cases
  are ready, the runtime may pick the ticker case, and the tick runs, with its registry
  query, after \<open>Stop\<close> was called.
\<close>

theorem tick_after_stop_counterexample:
  "EvRegistryQuery \<in> set (from_stop (trace (st
     (run scenario_db scenario_collector [TimerFires, StopCalled, Scheduled RecvTick] scenario_state))))"
  by (simp add: scenario_defs run_defs Second_def)

text \<open>
  Claim C4, as stated, fails. With a collection interval of zero, \<open>time.NewTicker\<close>
  panics in the first statement of \<open>run\<close>, and the pruning operation is never called.
\<close>

theorem prune_once_counterexample:
  "status (run scenario_db (NewStatsCollector scenario_manager 0 0) [TimerFires, Scheduled RecvTick]
      scenario_state) = Panicked NonPositiveTickerInterval \<and>
   prune_calls (new_events scenario_state (st
     (run scenario_db (NewStatsCollector scenario_manager 0 0) [TimerFires, Scheduled RecvTick]
        scenario_state))) = []"
  by (simp add: scenario_defs run_defs new_events_def prune_calls_def)

text \<open>
  Claim C5, amended. The loop returns only by taking the stop case of its \<open>select\<close>:
  when it has returned, the stop channel is closed (it was closed before, or \<open>Stop\<close>
  was called meanwhile), the last thing done is the log entry of the stop case, and nothing
  that happens afterwards adds anything. No failure ends the loop: while the stop channel
  is not closed and \<open>Stop\<close> is not called, the loop is still selecting, whatever the
  registry, the runtime and the pruning return, and a \<open>select\<close> with a tick pending
  runs that tick, with one registry query, and goes on. Once the stop channel is closed,
  a \<open>select\<close> returns without running a tick unless a tick is pending in the ticker
  channel and the runtime picks the ticker case.
\<close>

theorem loop_returns_only_on_stop:
  assumes "status r = Selecting"
  shows "(status (run_loop d ocs r) = Returned \<longrightarrow>
            (stopChan (collector r) = Closed \<or> StopCalled \<in> set ocs) \<and>
            stopChan (collector (run_loop d ocs r)) = Closed \<and>
            last (trace (st (run_loop d ocs r))) =
              EvLog (logger (collector (run_loop d ocs r))) InfoLevel ''Stats collector stopped'' [] \<and>
            (\<forall>more. run_loop d (ocs @ more) r = run_loop d ocs r)) \<and>
         (stopChan (collector r) \<noteq> Closed \<and> StopCalled \<notin> set ocs \<longrightarrow>
            status (run_loop d ocs r) = Selecting) \<and>
         (tickerC r \<and> stopChan (collector r) \<noteq> Closed \<longrightarrow>
            status (select_stmt d pick r) = Selecting \<and>
            registry_queries (new_events (st r) (st (select_stmt d pick r))) = 1) \<and>
         (stopChan (collector r) = Closed \<and> (\<not> tickerC r \<or> pick = RecvStop) \<longrightarrow>
            status (select_stmt d pick r) = Returned \<and>
            new_events (st r) (st (select_stmt d pick r)) =
              [EvLog (logger (collector r)) InfoLevel ''Stats collector stopped'' []]) \<and>
         (0 < collectionRate c \<and> stopChan c \<noteq> Closed \<and> StopCalled \<notin> set ocs \<longrightarrow>
            status (run d c ocs s) = Selecting)"
proof -
  have a: "(stopChan (collector r) = Closed \<or> StopCalled \<in> set ocs) \<and>
            stopChan (collector (run_loop d ocs r)) = Closed \<and>
            last (trace (st (run_loop d ocs r))) =
              EvLog (logger (collector (run_loop d ocs r))) InfoLevel ''Stats collector stopped'' [] \<and>
            (\<forall>more. run_loop d (ocs @ more) r = run_loop d ocs r)"
    if ret: "status (run_loop d ocs r) = Returned"
  proof -
    have "run_loop d (ocs @ more) r = run_loop d ocs r" for more
      using ret by (simp add: run_loop_append run_loop_not_selecting)
    with run_loop_Returned [OF assms ret] show ?thesis
      by simp
  qed
  have b: "status (run_loop d ocs r) = Selecting"
    if "stopChan (collector r) \<noteq> Closed \<and> StopCalled \<notin> set ocs"
    using that assms by (intro run_loop_stays_selecting) simp_all
  have c: "status (select_stmt d pick r) = Selecting \<and>
            registry_queries (new_events (st r) (st (select_stmt d pick r))) = 1"
    if t: "tickerC r \<and> stopChan (collector r) \<noteq> Closed"
  proof -
    obtain evs where evs: "trace (st (select_stmt d pick r)) = trace (st r) @ evs"
        "registry_queries evs = 1" "status (select_stmt d pick r) = status r"
      using select_stmt_tick [of r pick d] t by blast
    have "new_events (st r) (st (select_stmt d pick r)) = evs"
      by (rule new_events_append) (rule evs(1))
    with evs assms show ?thesis
      by simp
  qed
  have e: "status (select_stmt d pick r) = Returned \<and>
            new_events (st r) (st (select_stmt d pick r)) =
              [EvLog (logger (collector r)) InfoLevel ''Stats collector stopped'' []]"
    if s: "stopChan (collector r) = Closed \<and> (\<not> tickerC r \<or> pick = RecvStop)"
  proof -
    have eq: "select_stmt d pick r =
           r\<lparr>status := Returned,
             st := log_entry (logger (collector r)) InfoLevel ''Stats collector stopped'' [] (st r)\<rparr>"
      using s by (intro select_stmt_stop) simp_all
    have "new_events (st r) (st (select_stmt d pick r)) =
              [EvLog (logger (collector r)) InfoLevel ''Stats collector stopped'' []]"
      by (rule new_events_append) (simp add: eq log_entry_def trace_emit)
    then show ?thesis
      by (simp add: eq)
  qed
  have f: "status (run d c ocs s) = Selecting"
    if h: "0 < collectionRate c \<and> stopChan c \<noteq> Closed \<and> StopCalled \<notin> set ocs"
  proof -
    from h obtain r0 where r0: "run d c ocs s = run_loop d ocs r0" "status r0 = Selecting"
        "collector r0 = c"
      using run_positive [of c d ocs s] by blast
    with h show ?thesis
      by (simp add: run_loop_stays_selecting)
  qed
  from a b c e f show ?thesis
    by blast
qed


theorem loop_returns_only_on_stop_witness:
  "status \<lparr>status = Selecting, collector = scenario_collector, tickerC = False, st = scenario_state\<rparr>
     = Selecting \<and>
   status (run_loop failing_db [TimerFires, Scheduled RecvTick, StopCalled, Scheduled RecvTick]
     \<lparr>status = Selecting, collector = scenario_collector, tickerC = False, st = scenario_state\<rparr>)
     = Returned \<and>
   StopCalled \<in> set [TimerFires, Scheduled RecvTick, StopCalled, Scheduled RecvTick] \<and>
   stopChan (collector (run_loop failing_db [TimerFires, Scheduled RecvTick, StopCalled, Scheduled RecvTick]
     \<lparr>status = Selecting, collector = scenario_collector, tickerC = False, st = scenario_state\<rparr>))
     = Closed \<and>
   stopChan scenario_collector \<noteq> Closed \<and>
   StopCalled \<notin> set [TimerFires, Scheduled RecvTick, TimerFires, Scheduled RecvStop] \<and>
   status (run_loop failing_db [TimerFires, Scheduled RecvTick, TimerFires, Scheduled RecvStop]
     \<lparr>status = Selecting, collector = scenario_collector, tickerC = False, st = scenario_state\<rparr>)
     = Selecting \<and>
   status (select_stmt failing_db RecvStop
     \<lparr>status = Selecting, collector = scenario_collector, tickerC = True, st = scenario_state\<rparr>)
     = Selecting \<and>
   status (select_stmt failing_db RecvTick
     \<lparr>status = Selecting, collector = scenario_collector\<lparr>stopChan := Closed\<rparr>, tickerC = False,
      st = scenario_state\<rparr>) = Returned \<and>
   0 < collectionRate scenario_collector \<and>
   status (run failing_db scenario_collector [TimerFires, Scheduled RecvTick, TimerFires, Scheduled RecvStop]
     scenario_state) = Selecting"
  using
    loop_returns_only_on_stop [of
      "\<lparr>status = Selecting, collector = scenario_collector, tickerC = False, st = scenario_state\<rparr>"
      failing_db "[TimerFires, Scheduled RecvTick, StopCalled, Scheduled RecvTick]"]
    loop_returns_only_on_stop [of
      "\<lparr>status = Selecting, collector = scenario_collector, tickerC = False, st = scenario_state\<rparr>"
      failing_db "[TimerFires, Scheduled RecvTick, TimerFires, Scheduled RecvStop]" RecvStop
      scenario_collector scenario_state]
    loop_returns_only_on_stop [of
      "\<lparr>status = Selecting, collector = scenario_collector, tickerC = True, st = scenario_state\<rparr>"
      failing_db "[]" RecvStop]
    loop_returns_only_on_stop [of
      "\<lparr>status = Selecting, collector = scenario_collector\<lparr>stopChan := Closed\<rparr>, tickerC = False,
        st = scenario_state\<rparr>"
      failing_db "[]" RecvTick]
  by (simp add: scenario_defs run_defs Second_def)

lemma run_first_tick:
  assumes "0 < collectionRate c" and "stopChan c \<noteq> Closed"
  shows "registry_queries (new_events s (st (run d c [TimerFires, Scheduled pick] s))) = 1"
proof -
  obtain r0 logs where r0: "run d c [TimerFires, Scheduled pick] s = run_loop d [TimerFires, Scheduled pick] r0"
      "status r0 = Selecting" "collector r0 = c"
      "trace (st r0) = trace s @ EvPrune (maxPerInstance c) # logs"
      "logs = (case fst (PruneResourceUsage d (maxPerInstance c) (world s)) of
                     None \<Rightarrow> []
                   | Some err \<Rightarrow> [EvLog (logger c) ErrorLevel ''Failed to clean up old stats''
                                    [(''error'', FErr err)]])"
    using run_positive [OF assms(1)] by blast
  let ?r1 = "r0\<lparr>tickerC := True\<rparr>"
  have loop: "run_loop d [TimerFires, Scheduled pick] r0 = select_stmt d pick ?r1"
  proof -
    obtain evs where "status (select_stmt d pick ?r1) = status ?r1"
      using select_stmt_tick [of ?r1 pick d] r0(3) assms(2) by auto
    then show ?thesis
      using r0(2) by (simp add: occur_def)
  qed
  obtain evs where evs: "trace (st (select_stmt d pick ?r1)) = trace (st ?r1) @ evs"
      "registry_queries evs = 1"
    using select_stmt_tick [of ?r1 pick d] r0(3) assms(2) by auto
  have "trace (st (run d c [TimerFires, Scheduled pick] s)) =
          trace s @ EvPrune (maxPerInstance c) # logs @ evs"
    unfolding r0(1) loop evs(1) by (simp add: r0(4))
  then have "new_events s (st (run d c [TimerFires, Scheduled pick] s)) =
          EvPrune (maxPerInstance c) # logs @ evs"
    by (rule new_events_append)
  moreover have "registry_queries logs = 0"
    by (simp add: r0(5) registry_queries_simps split: option.splits)
  ultimately show ?thesis
    by (simp add: registry_queries_simps registry_queries_append evs(2))
qed

lemma run_new_events:
  assumes "0 < collectionRate c"
  shows "\<exists>evs. new_events s (st (run d c ocs s)) =
           EvPrune (maxPerInstance c) #
           (case fst (PruneResourceUsage d (maxPerInstance c) (world s)) of
              None \<Rightarrow> []
            | Some err \<Rightarrow> [EvLog (logger c) ErrorLevel ''Failed to clean up old stats''
                             [(''error'', FErr err)]]) @ evs"
proof -
  obtain r0 logs where r0: "run d c ocs s = run_loop d ocs r0"
      "trace (st r0) = trace s @ EvPrune (maxPerInstance c) # logs"
      "logs = (case fst (PruneResourceUsage d (maxPerInstance c) (world s)) of
                     None \<Rightarrow> []
                   | Some err \<Rightarrow> [EvLog (logger c) ErrorLevel ''Failed to clean up old stats''
                                    [(''error'', FErr err)]])"
    using run_positive [OF assms] by blast
  obtain evs where evs: "trace (st (run_loop d ocs r0)) = trace (st r0) @ evs"
    using run_loop_extends by blast
  have "new_events s (st (run d c ocs s)) = EvPrune (maxPerInstance c) # logs @ evs"
    by (rule new_events_append) (simp add: r0 evs)
  then show ?thesis
    unfolding r0(3) by blast
qed

text \<open>
  Claim C4, amended. In every execution of the collector with a positive collection
  interval, the pruning operation is called exactly once, with the collector's cap, however
  many ticks follow; the call is the first thing \<open>run\<close> does, before any tick; when it
  fails, the failure is logged right after it, and in either case the loop is reached and
  the first tick of the timer runs its registry query.
\<close>

theorem prune_once_at_startup:
  assumes "0 < collectionRate c"
  shows "prune_calls (new_events s (st (run d c ocs s))) = [maxPerInstance c] \<and>
         take 1 (new_events s (st (run d c ocs s))) = [EvPrune (maxPerInstance c)] \<and>
         (\<forall>err w'. PruneResourceUsage d (maxPerInstance c) (world s) = (Some err, w') \<longrightarrow>
            take 2 (new_events s (st (run d c ocs s))) =
              [EvPrune (maxPerInstance c),
               EvLog (logger c) ErrorLevel ''Failed to clean up old stats'' [(''error'', FErr err)]]) \<and>
         (stopChan c \<noteq> Closed \<longrightarrow>
            status (run d c [] s) = Selecting \<and>
            registry_queries (new_events s (st (run d c [TimerFires, Scheduled pick] s))) = 1)"
proof -
  obtain evs where evs: "new_events s (st (run d c ocs s)) =
           EvPrune (maxPerInstance c) #
           (case fst (PruneResourceUsage d (maxPerInstance c) (world s)) of
              None \<Rightarrow> []
            | Some err \<Rightarrow> [EvLog (logger c) ErrorLevel ''Failed to clean up old stats''
                             [(''error'', FErr err)]]) @ evs"
    using run_new_events [OF assms] by blast
  have a: "prune_calls (new_events s (st (run d c ocs s))) = [maxPerInstance c]"
    using assms by (simp add: run_prune_calls)
  have b: "take 1 (new_events s (st (run d c ocs s))) = [EvPrune (maxPerInstance c)]"
    by (simp add: evs)
  have c: "take 2 (new_events s (st (run d c ocs s))) =
              [EvPrune (maxPerInstance c),
               EvLog (logger c) ErrorLevel ''Failed to clean up old stats'' [(''error'', FErr err)]]"
    if "PruneResourceUsage d (maxPerInstance c) (world s) = (Some err, w')" for err w'
    using that by (simp add: evs)
  have e: "status (run d c [] s) = Selecting"
  proof -
    obtain r0 where "run d c [] s = run_loop d [] r0" "status r0 = Selecting"
      using run_positive [OF assms, of d "[]" s] by blast
    then show ?thesis by simp
  qed
  have f: "registry_queries (new_events s (st (run d c [TimerFires, Scheduled pick] s))) = 1"
    if "stopChan c \<noteq> Closed"
    using assms that by (rule run_first_tick)
  from a b c e f show ?thesis
    by blast
qed

theorem prune_once_at_startup_witness:
  "0 < collectionRate scenario_collector \<and>
   PruneResourceUsage failing_db (maxPerInstance scenario_collector) (world scenario_state) =
     (Some (Error ''connection refused''), Suc 0) \<and>
   stopChan scenario_collector \<noteq> Closed \<and>
   prune_calls (new_events scenario_state (st (run failing_db scenario_collector
      [TimerFires, Scheduled RecvTick, TimerFires, Scheduled RecvTick] scenario_state))) = [100] \<and>
   take 2 (new_events scenario_state (st (run failing_db scenario_collector
      [TimerFires, Scheduled RecvTick, TimerFires, Scheduled RecvTick] scenario_state))) =
     [EvPrune 100,
      EvLog 0 ErrorLevel ''Failed to clean up old stats'' [(''error'', FErr (Error ''connection refused''))]] \<and>
   registry_queries (new_events scenario_state (st (run failing_db scenario_collector
      [TimerFires, Scheduled RecvTick] scenario_state))) = 1"
  using prune_once_at_startup [of scenario_collector scenario_state failing_db
      "[TimerFires, Scheduled RecvTick, TimerFires, Scheduled RecvTick]" RecvTick]
  by (simp add: scenario_collector_def failing_db_def scenario_state_def NewStatsCollector_def
      Second_def)

end
